theory Spec2Isabelle
  imports Main "HOL-Library.Word"
begin

unbundle bit_operations_syntax

section \<open>Machine types\<close>

text \<open>
  The driver is kernel C. Its integer types are modelled as words of the widths they
  have on a 32-bit kernel (ILP32), the data model under which line 187,
  \<^verbatim>\<open>min(max_addr, from + len)\<close>, passes the type check of the kernel's
  \<^verbatim>\<open>min\<close> macro: there \<^verbatim>\<open>loff_t + size_t\<close> is again a
  \<^verbatim>\<open>loff_t\<close>. \<^verbatim>\<open>loff_t\<close> is 64 bits and signed; \<^verbatim>\<open>size_t\<close> is
  32 bits and unsigned; \<^verbatim>\<open>ssize_t\<close> and \<^verbatim>\<open>int\<close> are 32 bits and signed.
  A signed value is read with \<open>sint\<close> and compared with \<open><s\<close>; arithmetic wraps.
\<close>

type_synonym u8 = "8 word"
type_synonym c_int = "32 word"
type_synonym size_t = "32 word"
type_synonym ssize_t = "32 word"
type_synonym loff_t = "64 word"

section \<open>Constants\<close>

definition AT25SF041_MAN_ID :: u8 where
  "AT25SF041_MAN_ID = 0x1F"

definition AT25SF041_DEV_ID1 :: u8 where
  "AT25SF041_DEV_ID1 = 0x84"

definition AT25SF041_DEV_ID2 :: u8 where
  "AT25SF041_DEV_ID2 = 0x01"

definition AT25SF041_PAGE_SIZE :: size_t where
  "AT25SF041_PAGE_SIZE = 256"

text \<open>
  From the kernel headers the driver includes (\<^verbatim>\<open>linux/mtd/spi-nor.h\<close> and
  \<^verbatim>\<open>errno\<close>): the read-status and read-identity opcodes, the write-in-progress
  bit of the status register, and the I/O error number.
\<close>

definition SPINOR_OP_RDSR :: u8 where
  "SPINOR_OP_RDSR = 0x05"

definition SPINOR_OP_RDID :: u8 where
  "SPINOR_OP_RDID = 0x9f"

definition SR_WIP :: u8 where
  "SR_WIP = 1"

definition EIO :: c_int where
  "EIO = 5"

section \<open>The SPI transport\<close>

text \<open>
  A \<^verbatim>\<open>struct spi_transfer\<close> either sends the bytes of \<open>tx_buf\<close> or receives
  into a buffer (\<open>rx_buf\<close>); \<open>xfer_len\<close> is its \<^verbatim>\<open>len\<close>, and \<open>cs_change\<close> releases
  chip select after the segment. A \<^verbatim>\<open>struct spi_message\<close> is the list of transfers in the order of
  \<^verbatim>\<open>spi_message_add_tail\<close>.
\<close>

record spi_transfer =
  tx_buf :: "u8 list option"
  rx_buf :: bool
  xfer_len :: "32 word"
  cs_change :: bool

type_synonym spi_message = "spi_transfer list"

text \<open>
  \<^verbatim>\<open>spi_sync\<close> belongs to the kernel, not to the driver: it is the environment.
  The bus answers a message with a status code and the bytes received for each receiving
  segment, and the answer may depend on every message sent before. The device state is
  that behaviour together with the log of the messages issued so far, so that
  "no bus transaction is issued" means that the log \<open>sent\<close> is unchanged.
\<close>

type_synonym spi_bus = "spi_message list \<Rightarrow> spi_message \<Rightarrow> c_int \<times> u8 list list"

record spi_device =
  bus :: spi_bus
  sent :: "spi_message list"

definition spi_sync :: "spi_device \<Rightarrow> spi_message \<Rightarrow> (c_int \<times> u8 list list) \<times> spi_device" where
  "spi_sync spi m = (bus spi (sent spi) m, spi\<lparr>sent := sent spi @ [m]\<rparr>)"

text \<open>
  The content of a receive buffer after the transfer: of the bytes received for the
  \<open>k\<close>-th receiving segment, at most the \<open>n\<close> the segment asks for overwrite the buffer
  from its start, and what was not received keeps the value the buffer had before.
\<close>

definition rx_into :: "u8 list \<Rightarrow> nat \<Rightarrow> u8 list list \<Rightarrow> nat \<Rightarrow> u8 list" where
  "rx_into buf n rx k =
     (let d = take n (if k < length rx then rx ! k else [])
      in take (length buf) d @ drop (length d) buf)"

section \<open>The connection probe\<close>

definition test_con_message :: spi_message where
  "test_con_message =
     [\<lparr>tx_buf = Some [SPINOR_OP_RDSR], rx_buf = False, xfer_len = 1, cs_change = False\<rparr>,
      \<lparr>tx_buf = None, rx_buf = True, xfer_len = 1, cs_change = True\<rparr>,
      \<lparr>tx_buf = Some [SPINOR_OP_RDID], rx_buf = False, xfer_len = 1, cs_change = False\<rparr>,
      \<lparr>tx_buf = None, rx_buf = True, xfer_len = 3, cs_change = False\<rparr>]"

text \<open>The status byte (seeded with 0xAB) and the identity bytes (seeded with zeros)
  as they stand after the transfer.\<close>

definition status_after :: "u8 list list \<Rightarrow> u8" where
  "status_after rx = hd (rx_into [0xAB] 1 rx 0)"

definition id_after :: "u8 list list \<Rightarrow> u8 list" where
  "id_after rx = rx_into [0, 0, 0] 3 rx 1"

definition at25sf041_test_con :: "spi_device \<Rightarrow> c_int \<times> spi_device" where
  "at25sf041_test_con spi =
     (let ((result, rx), spi') = spi_sync spi test_con_message;
          status = status_after rx;
          id = id_after rx
      in if 0 \<noteq> result then (result, spi')
         else if 0xFF = status then (- EIO, spi')
         else if status AND SR_WIP = 0 then
           (if AT25SF041_MAN_ID \<noteq> id ! 0 \<or>
               AT25SF041_DEV_ID1 \<noteq> id ! 1 \<or>
               AT25SF041_DEV_ID2 \<noteq> id ! 2
            then (- EIO, spi') else (0, spi'))
         else (0, spi'))"

section \<open>Register access\<close>

text \<open>The \<^verbatim>\<open>dev_warn\<close> calls only log and are left out. The register functions
  return the status code, the caller's buffer and the device.\<close>

definition reg_message :: "spi_transfer \<Rightarrow> spi_transfer \<Rightarrow> c_int \<Rightarrow> spi_message" where
  "reg_message command_t data_t len = [command_t] @ (if 0 <s len then [data_t] else [])"

definition at25sf041_read_reg ::
  "spi_device \<Rightarrow> u8 \<Rightarrow> u8 list \<Rightarrow> c_int \<Rightarrow> c_int \<times> u8 list \<times> spi_device" where
  "at25sf041_read_reg spi opcode buf len =
     (let command_t = \<lparr>tx_buf = Some [opcode], rx_buf = False, xfer_len = 1, cs_change = False\<rparr>;
          data_t = \<lparr>tx_buf = None, rx_buf = True, xfer_len = len, cs_change = False\<rparr>;
          (result, spi1) = at25sf041_test_con spi
      in if 0 \<noteq> result then (result, buf, spi1)
         else
           let ((result, rx), spi2) = spi_sync spi1 (reg_message command_t data_t len);
               buf' = (if 0 <s len then rx_into buf (unat len) rx 0 else buf)
           in if 0 \<noteq> result then (result, buf', spi2) else (0, buf', spi2))"

definition at25sf041_write_reg ::
  "spi_device \<Rightarrow> u8 \<Rightarrow> u8 list \<Rightarrow> c_int \<Rightarrow> c_int \<times> spi_device" where
  "at25sf041_write_reg spi opcode buf len =
     (let command_t = \<lparr>tx_buf = Some [opcode], rx_buf = False, xfer_len = 1, cs_change = False\<rparr>;
          data_t = \<lparr>tx_buf = Some (take (unat len) buf), rx_buf = False, xfer_len = len,
                    cs_change = False\<rparr>;
          (result, spi1) = at25sf041_test_con spi
      in if 0 \<noteq> result then (result, spi1)
         else
           let ((result, rx), spi2) = spi_sync spi1 (reg_message command_t data_t len)
           in if 0 \<noteq> result then (result, spi2) else (0, spi2))"

section \<open>Linear read\<close>

text \<open>Of \<^verbatim>\<open>struct spi_nor\<close> the driver reads \<^verbatim>\<open>mtd.size\<close>, the capacity, and
  \<^verbatim>\<open>dev\<close>, the SPI device, which is passed beside it.\<close>

record spi_nor =
  mtd_size :: loff_t

text \<open>The kernel's \<^verbatim>\<open>min\<close> on two \<^verbatim>\<open>loff_t\<close>: \<^verbatim>\<open>x < y ? x : y\<close>, signed.\<close>

definition min_loff :: "loff_t \<Rightarrow> loff_t \<Rightarrow> loff_t" where
  "min_loff x y = (if x <s y then x else y)"

definition addr_bytes :: "loff_t \<Rightarrow> u8 list" where
  "addr_bytes a =
     [ucast (signed_drop_bit 16 a AND 0xFF),
      ucast (signed_drop_bit 8 a AND 0xFF),
      ucast (a AND 0xFF)]"

definition read_message :: "loff_t \<Rightarrow> size_t \<Rightarrow> spi_message" where
  "read_message from read_len =
     [\<lparr>tx_buf = Some ([0x0b] @ addr_bytes from @ [0]), rx_buf = False, xfer_len = 5,
        cs_change = False\<rparr>,
      \<lparr>tx_buf = None, rx_buf = True, xfer_len = read_len, cs_change = False\<rparr>]"

definition at25sf041_read ::
  "spi_nor \<Rightarrow> spi_device \<Rightarrow> loff_t \<Rightarrow> size_t \<Rightarrow> u8 list \<Rightarrow> ssize_t \<times> u8 list \<times> spi_device" where
  "at25sf041_read nor spi from len read_buf =
     (let max_addr = mtd_size nor;
          end = min_loff max_addr (from + ucast len);
          read_len = (ucast (end - from) :: size_t);
          (result, spi1) = at25sf041_test_con spi
      in if 0 \<noteq> result then (result, read_buf, spi1)
         else
           let ((result, rx), spi2) = spi_sync spi1 (read_message from read_len);
               read_buf' = rx_into read_buf (unat read_len) rx 0
           in if 0 \<noteq> result then (result, read_buf', spi2) else (read_len, read_buf', spi2))"

section \<open>Page program and the splitting write\<close>

record at25sf041_page =
  spi_addr_start :: loff_t
  buffer_start :: "u8 list"
  len :: size_t

definition write_page_message :: "at25sf041_page \<Rightarrow> spi_message" where
  "write_page_message page =
     [\<lparr>tx_buf = Some ([0x02] @ addr_bytes (spi_addr_start page)), rx_buf = False, xfer_len = 4,
        cs_change = False\<rparr>,
      \<lparr>tx_buf = Some (take (unat (len page)) (buffer_start page)), rx_buf = False,
        xfer_len = len page, cs_change = False\<rparr>]"

definition at25sf041_write_page :: "spi_device \<Rightarrow> at25sf041_page \<Rightarrow> ssize_t \<times> spi_device" where
  "at25sf041_write_page spi page =
     (let (result, spi1) = at25sf041_test_con spi
      in if 0 \<noteq> result then (result, spi1)
         else
           let ((result, rx), spi2) = spi_sync spi1 (write_page_message page)
           in if 0 \<noteq> result then (result, spi2) else (len page, spi2))"

text \<open>
  The loop of \<^verbatim>\<open>at25sf041_write\<close> (lines 264 to 283). Its state is the cursor
  \<open>to\<close>, the rest of the caller's buffer and \<open>data_left\<close>. \<open>write_chunk\<close> is the page
  an iteration builds (lines 265 to 271). Beside the result and the device the loop
  returns the calls it made to \<open>at25sf041_write_page\<close>, each with the page passed and
  the value returned, in order.
\<close>

definition write_chunk :: "loff_t \<Rightarrow> u8 list \<Rightarrow> size_t \<Rightarrow> at25sf041_page" where
  "write_chunk to write_buf data_left =
     (let page_off = (ucast (to AND 0xFF) :: size_t);
          page_rem = AT25SF041_PAGE_SIZE - page_off
      in \<lparr>spi_addr_start = to, buffer_start = write_buf, len = min page_rem data_left\<rparr>)"

type_synonym page_call = "at25sf041_page \<times> ssize_t"

function at25sf041_write_loop ::
  "spi_device \<Rightarrow> loff_t \<Rightarrow> u8 list \<Rightarrow> size_t \<Rightarrow> size_t \<Rightarrow> page_call list
     \<Rightarrow> ssize_t \<times> page_call list \<times> spi_device" where
  "at25sf041_write_loop spi to write_buf data_left write_len calls =
     (if 0 < data_left then
        let page = write_chunk to write_buf data_left;
            (result, spi') = at25sf041_write_page spi page
        in if result <s 0 then (result, calls @ [(page, result)], spi')
           else if len page \<noteq> result then (- EIO, calls @ [(page, result)], spi')
           else at25sf041_write_loop spi' (to + ucast (len page))
                  (drop (unat (len page)) write_buf) (data_left - len page) write_len
                  (calls @ [(page, result)])
      else (write_len, calls, spi))"
  by pat_completeness auto

text \<open>Every iteration that continues has written a chunk of at least one byte, so
  \<open>data_left\<close> decreases.\<close>

termination at25sf041_write_loop
proof (relation "measure (\<lambda>(spi, to, write_buf, data_left, write_len, calls). unat data_left)",
    goal_cases)
  case 1
  show ?case by simp
next
  case (2 spi to write_buf data_left write_len calls page r result spi')
  define page_off :: size_t where "page_off = ucast (to AND 0xFF)"
  define page_rem where "page_rem = AT25SF041_PAGE_SIZE - page_off"
  have "to AND 0xFF = take_bit 8 to"
    by (simp only: take_bit_eq_mask) (simp add: mask_eq_exp_minus_1)
  then have "unat (to AND 0xFF) = unat to mod 256"
    by (simp add: take_bit_eq_mod unat_mod)
  moreover have "unat page_off = unat (to AND 0xFF) mod 2 ^ 32"
    unfolding page_off_def
    by (simp only: unsigned_ucast_eq take_bit_eq_mod) simp
  ultimately have off: "unat page_off = unat to mod 256"
    by simp
  then have "page_off \<le> 256"
    by (simp add: word_le_nat_alt less_imp_le)
  then have rem: "unat page_rem = 256 - unat to mod 256"
    unfolding page_rem_def AT25SF041_PAGE_SIZE_def
    by (simp add: unat_sub off)
  have chunk: "len page = min page_rem data_left"
    unfolding \<open>page = _\<close> write_chunk_def page_rem_def page_off_def by (simp add: Let_def)
  have left: "0 < unat data_left"
    using \<open>0 < data_left\<close> by (simp add: word_less_nat_alt)
  have "len page \<le> data_left"
    by (simp add: chunk)
  then have "unat (data_left - len page) = unat data_left - unat (len page)"
    by (rule unat_sub)
  moreover have "0 < unat (len page)"
    using left rem by (simp add: chunk min_def)
  ultimately show ?case
    using left by simp
qed

declare at25sf041_write_loop.simps [simp del]

text \<open>\<^verbatim>\<open>at25sf041_write\<close>: the range is clamped to the capacity as in the reader, then
  the loop runs from the start of the buffer with no call made yet. Its length argument
  is written \<open>len_arg\<close>, as \<open>len\<close> now names the field of the page.\<close>

definition at25sf041_write ::
  "spi_nor \<Rightarrow> spi_device \<Rightarrow> loff_t \<Rightarrow> size_t \<Rightarrow> u8 list
     \<Rightarrow> ssize_t \<times> page_call list \<times> spi_device" where
  "at25sf041_write nor spi to len_arg write_buf =
     (let max_addr = mtd_size nor;
          end = min_loff max_addr (to + ucast len_arg);
          write_len = (ucast (end - to) :: size_t);
          data_left = write_len
      in at25sf041_write_loop spi to write_buf data_left write_len [])"

section \<open>A simulated chip\<close>

text \<open>
  The bus used for the concrete instances below. It answers the probe, the only message
  of four segments, with status code 0, the status byte \<open>status\<close> and the identity bytes
  \<open>ident\<close>; it answers every other message with the status code \<open>r\<close> and no data.
\<close>

definition sim_bus :: "u8 \<Rightarrow> u8 list \<Rightarrow> c_int \<Rightarrow> spi_bus" where
  "sim_bus status ident r h m = (if length m = 4 then (0, [[status], ident]) else (r, []))"

definition sim_chip :: "u8 \<Rightarrow> u8 list \<Rightarrow> c_int \<Rightarrow> spi_device" where
  "sim_chip status ident r = \<lparr>bus = sim_bus status ident r, sent = []\<rparr>"

section \<open>The probe\<close>

lemma test_con_result:
  assumes "bus spi (sent spi) test_con_message = (r, rx)"
  shows "fst (at25sf041_test_con spi) =
     (if 0 \<noteq> r then r
      else if 0xFF = status_after rx then - EIO
      else if status_after rx AND SR_WIP = 0 then
        (if AT25SF041_MAN_ID \<noteq> id_after rx ! 0 \<or> AT25SF041_DEV_ID1 \<noteq> id_after rx ! 1 \<or>
            AT25SF041_DEV_ID2 \<noteq> id_after rx ! 2 then - EIO else 0)
      else 0)"
  using assms by (simp add: at25sf041_test_con_def spi_sync_def)

lemma test_con_sent: "sent (snd (at25sf041_test_con spi)) = sent spi @ [test_con_message]"
  by (simp add: at25sf041_test_con_def spi_sync_def Let_def split: prod.splits)

lemma test_con_bus: "bus (snd (at25sf041_test_con spi)) = bus spi"
  by (simp add: at25sf041_test_con_def spi_sync_def Let_def split: prod.splits)

lemma sint_neg_EIO: "sint (- EIO) = - 5"
  by (simp add: EIO_def)

lemma length_id_after: "length (id_after rx) = 3"
  by (simp add: id_after_def rx_into_def Let_def)

lemma sim_probe_answer:
  "bus (sim_chip status ident r) (sent (sim_chip status ident r)) test_con_message
     = (0, [[status], ident])"
  by (simp add: sim_chip_def sim_bus_def test_con_message_def)

lemma status_after_sim: "status_after [[status], ident] = status"
  by (simp add: status_after_def rx_into_def)

lemma id_after_sim: "id_after [[status], [a, b, c]] = [a, b, c]"
  by (simp add: id_after_def rx_into_def)

text \<open>
  C4. When the probe's transaction succeeds and the status byte received is 0xFF, the
  probe returns the error \<open>-EIO\<close> (the value -5): the link is reported as disconnected.
  Nothing is assumed about the identity bytes, which are whatever \<open>rx\<close> holds.
\<close>

theorem probe_status_ff_disconnected:
  assumes "bus spi (sent spi) test_con_message = (0, rx)"
    and "status_after rx = 0xFF"
  shows "fst (at25sf041_test_con spi) = - EIO \<and> sint (fst (at25sf041_test_con spi)) = - 5"
  using assms by (simp add: test_con_result sint_neg_EIO)

theorem probe_status_ff_disconnected_witness:
  "sint (fst (at25sf041_test_con (sim_chip 0xFF [0x1F, 0x84, 0x01] 0))) = - 5"
  using probe_status_ff_disconnected
    [of "sim_chip 0xFF [0x1F, 0x84, 0x01] 0" "[[0xFF], [0x1F, 0x84, 0x01]]"]
  by (simp add: sim_probe_answer status_after_sim sint_neg_EIO)

text \<open>
  C5. When the probe's transaction succeeds, the status byte is not 0xFF and its
  write-in-progress bit is set, the probe returns 0 (connected), whatever the identity
  bytes are: they are not looked at.
\<close>

theorem probe_wip_connected:
  assumes "bus spi (sent spi) test_con_message = (0, rx)"
    and "status_after rx \<noteq> 0xFF"
    and "status_after rx AND SR_WIP \<noteq> 0"
  shows "fst (at25sf041_test_con spi) = 0"
  using assms by (simp add: test_con_result)

theorem probe_wip_connected_witness:
  "fst (at25sf041_test_con (sim_chip 0x03 [0xFF, 0xFF, 0xFF] 0)) = 0"
  using probe_wip_connected
    [of "sim_chip 0x03 [0xFF, 0xFF, 0xFF] 0" "[[0x03], [0xFF, 0xFF, 0xFF]]"]
  by (simp add: sim_probe_answer status_after_sim SR_WIP_def)

text \<open>
  C6. When the probe's transaction succeeds and the status byte is 0x00, the probe
  returns \<open>-EIO\<close> if the three identity bytes differ from (0x1F, 0x84, 0x01) in some
  position, and 0 if they are exactly these. The identity buffer always holds three bytes.
\<close>

theorem probe_idle_identity:
  assumes "bus spi (sent spi) test_con_message = (0, rx)"
    and "status_after rx = 0x00"
  shows "(id_after rx ! 0 \<noteq> 0x1F \<or> id_after rx ! 1 \<noteq> 0x84 \<or> id_after rx ! 2 \<noteq> 0x01
            \<longrightarrow> fst (at25sf041_test_con spi) = - EIO) \<and>
         (id_after rx = [0x1F, 0x84, 0x01] \<longrightarrow> fst (at25sf041_test_con spi) = 0) \<and>
         (id_after rx \<noteq> [0x1F, 0x84, 0x01] \<longrightarrow> fst (at25sf041_test_con spi) = - EIO) \<and>
         length (id_after rx) = 3"
proof -
  obtain a b c where abc: "id_after rx = [a, b, c]"
    using length_id_after [of rx]
    by (metis (no_types, opaque_lifting) length_0_conv length_Suc_conv numeral_3_eq_3)
  have "fst (at25sf041_test_con spi) = (if a \<noteq> 0x1F \<or> b \<noteq> 0x84 \<or> c \<noteq> 0x01 then - EIO else 0)"
    using assms
    by (auto simp add: test_con_result abc SR_WIP_def AT25SF041_MAN_ID_def
        AT25SF041_DEV_ID1_def AT25SF041_DEV_ID2_def)
  then show ?thesis
    by (auto simp add: abc)
qed

theorem probe_idle_identity_witness:
  "fst (at25sf041_test_con (sim_chip 0x00 [0x1F, 0x84, 0x00] 0)) = - EIO \<and>
   fst (at25sf041_test_con (sim_chip 0x00 [0x1F, 0x84, 0x01] 0)) = 0"
  using probe_idle_identity
    [of "sim_chip 0x00 [0x1F, 0x84, 0x00] 0" "[[0x00], [0x1F, 0x84, 0x00]]"]
    probe_idle_identity
    [of "sim_chip 0x00 [0x1F, 0x84, 0x01] 0" "[[0x00], [0x1F, 0x84, 0x01]]"]
  by (simp add: sim_probe_answer status_after_sim id_after_sim)

section \<open>Register access is gated by the probe\<close>

lemma test_con_cases:
  obtains r spi1 where "at25sf041_test_con spi = (r, spi1)"
    and "sent spi1 = sent spi @ [test_con_message]" and "bus spi1 = bus spi"
  using test_con_sent [of spi] test_con_bus [of spi]
  by (cases "at25sf041_test_con spi") auto

text \<open>
  C8. \<open>at25sf041_read_reg\<close> and \<open>at25sf041_write_reg\<close> invoke the probe first: the
  first message either of them puts on the bus is the probe's. If the probe returns a
  non-zero code, the call returns that code with the device as the probe left it: the
  log holds the probe's message and nothing after it, so no opcode or payload segment
  was executed, and the caller's buffer is untouched.
\<close>

theorem register_access_probe_gate:
  "(\<exists>rest. sent (snd (snd (at25sf041_read_reg spi opcode rbuf rlen)))
             = sent spi @ test_con_message # rest) \<and>
   (\<exists>rest. sent (snd (at25sf041_write_reg spi opcode wbuf wlen))
             = sent spi @ test_con_message # rest) \<and>
   (fst (at25sf041_test_con spi) \<noteq> 0 \<longrightarrow>
      at25sf041_read_reg spi opcode rbuf rlen
        = (fst (at25sf041_test_con spi), rbuf, snd (at25sf041_test_con spi)) \<and>
      at25sf041_write_reg spi opcode wbuf wlen
        = (fst (at25sf041_test_con spi), snd (at25sf041_test_con spi)) \<and>
      sent (snd (at25sf041_test_con spi)) = sent spi @ [test_con_message])"
proof -
  obtain r spi1 where t: "at25sf041_test_con spi = (r, spi1)"
    and s1: "sent spi1 = sent spi @ [test_con_message]"
    by (rule test_con_cases)
  have a: "\<exists>rest. sent (snd (snd (at25sf041_read_reg spi opcode rbuf rlen)))
             = sent spi @ test_con_message # rest"
    by (simp add: at25sf041_read_reg_def t s1 spi_sync_def Let_def split: prod.splits)
  have b: "\<exists>rest. sent (snd (at25sf041_write_reg spi opcode wbuf wlen))
             = sent spi @ test_con_message # rest"
    by (simp add: at25sf041_write_reg_def t s1 spi_sync_def Let_def split: prod.splits)
  have c: "r \<noteq> 0 \<Longrightarrow> at25sf041_read_reg spi opcode rbuf rlen = (r, rbuf, spi1)"
    by (simp add: at25sf041_read_reg_def t)
  have d: "r \<noteq> 0 \<Longrightarrow> at25sf041_write_reg spi opcode wbuf wlen = (r, spi1)"
    by (simp add: at25sf041_write_reg_def t)
  show ?thesis
    using a b c d by (simp add: t s1)
qed

lemma test_con_sim:
  "at25sf041_test_con \<lparr>bus = sim_bus st [a, b, c] r, sent = h\<rparr> =
     (if st = 0xFF then - EIO
      else if st AND 1 = 0 \<and> (a \<noteq> 0x1F \<or> b \<noteq> 0x84 \<or> c \<noteq> 0x01) then - EIO
      else 0,
      \<lparr>bus = sim_bus st [a, b, c] r, sent = h @ [test_con_message]\<rparr>)"
proof -
  have m: "length test_con_message = 4"
    by (simp add: test_con_message_def)
  show ?thesis
    by (auto simp add: at25sf041_test_con_def spi_sync_def sim_bus_def m status_after_sim
        id_after_sim SR_WIP_def AT25SF041_MAN_ID_def AT25SF041_DEV_ID1_def AT25SF041_DEV_ID2_def
        Let_def)
qed

theorem register_access_probe_gate_witness:
  "at25sf041_read_reg (sim_chip 0xFF [0, 0, 0] 0) 0x05 [0] 1
     = (- EIO, [0], \<lparr>bus = sim_bus 0xFF [0, 0, 0] 0, sent = [test_con_message]\<rparr>) \<and>
   at25sf041_write_reg (sim_chip 0xFF [0, 0, 0] 0) 0x05 [0] 1
     = (- EIO, \<lparr>bus = sim_bus 0xFF [0, 0, 0] 0, sent = [test_con_message]\<rparr>)"
  using register_access_probe_gate [where spi = "sim_chip 0xFF [0, 0, 0] 0" and opcode = "0x05"
      and rbuf = "[0]" and rlen = 1 and wbuf = "[0]" and wlen = 1]
  by (simp add: sim_chip_def test_con_sim EIO_def)

section \<open>The linear read at the capacity\<close>

lemma sint_sum:
  fixes "from" :: loff_t and len :: size_t
  assumes "- (2 ^ 63) \<le> sint from + uint len" "sint from + uint len < 2 ^ 63"
  shows "sint (from + ucast len) = sint from + uint len"
proof -
  have hi: "uint len < 2 ^ 32"
    using uint_lt2p [of len] by simp
  have lo: "0 \<le> uint len"
    by simp
  have "- (2 ^ 63) \<le> uint len"
    by (rule order_trans [OF _ lo]) simp
  moreover have "uint len < 2 ^ 63"
    by (rule less_trans [OF hi]) simp
  ultimately have "signed_take_bit 63 (uint len) = uint len"
    by (rule signed_take_bit_int_eq_self)
  then have u: "sint (ucast len :: loff_t) = uint len"
    by (simp add: signed_ucast_eq)
  have "signed_take_bit 63 (sint from + uint len) = sint from + uint len"
    using assms by (rule signed_take_bit_int_eq_self)
  then show ?thesis
    by (simp add: sint_word_ariths u)
qed


lemma sint_diff32:
  fixes a b :: loff_t
  assumes "- (2 ^ 31) \<le> sint a - sint b" "sint a - sint b < 2 ^ 31"
  shows "sint (ucast (a - b) :: 32 word) = sint a - sint b"
proof -
  have "a - b = word_of_int (sint a) - word_of_int (sint b)"
    by simp
  also have "\<dots> = word_of_int (sint a - sint b)"
    by (rule wi_hom_sub)
  finally have "(ucast (a - b) :: 32 word) = ucast (word_of_int (sint a - sint b) :: loff_t)"
    by simp
  also have "\<dots> = word_of_int (sint a - sint b)"
    by (rule ucast_down_wi) (simp add: is_down)
  finally have "sint (ucast (a - b) :: 32 word)
      = sint (word_of_int (sint a - sint b) :: 32 word)"
    by (simp only:)
  also have "\<dots> = signed_take_bit 31 (sint a - sint b)"
    by (simp only: sint_sbintrunc') simp
  also have "\<dots> = sint a - sint b"
    using assms by (rule signed_take_bit_int_eq_self)
  finally show ?thesis .
qed

lemma read_unfold:
  fixes len :: size_t
  assumes "at25sf041_test_con spi = (r, spi1)"
    and "read_len = ucast (min_loff (mtd_size nor) (from + ucast len) - from)"
    and "bus spi1 (sent spi1) (read_message from read_len) = (r2, rx)"
  shows "at25sf041_read nor spi from len read_buf =
     (if r \<noteq> 0 then (r, read_buf, spi1)
      else (if r2 \<noteq> 0 then r2 else read_len, rx_into read_buf (unat read_len) rx 0,
            spi1\<lparr>sent := sent spi1 @ [read_message from read_len]\<rparr>))"
  using assms by (simp add: at25sf041_read_def spi_sync_def Let_def)

lemma read_len_clamped:
  fixes "from" :: loff_t and len :: size_t
  assumes "0 \<le> sint from" "sint from < sint cap" "sint cap < sint from + uint len"
    and "sint cap < 2 ^ 31"
  shows "min_loff cap (from + ucast len) = cap"
proof -
  have "uint len < 2 ^ 32"
    using uint_lt2p [of len] by simp
  then have "sint from + uint len < 2 ^ 63"
    using assms by simp
  moreover have "- (2 ^ 63) \<le> sint from + uint len"
    using assms by simp
  ultimately have "sint (from + ucast len) = sint from + uint len"
    by (simp add: sint_sum)
  then show ?thesis
    using assms by (simp add: min_loff_def word_sless_alt)
qed

text \<open>
  C7. For \<open>0 \<le> from < capacity\<close> and \<open>from + len > capacity\<close>, when the probe and the
  read transaction succeed, \<open>at25sf041_read\<close> returns exactly \<open>capacity - from\<close>, and
  that is the number of bytes it asked the bus for. The capacity is taken to fit the
  \<^verbatim>\<open>ssize_t\<close> in which the count is returned (it is below \<open>2 ^ 31\<close>), as it does
  for every chip the three address bytes of the command can address.
\<close>

theorem read_truncates_to_capacity:
  fixes len :: size_t
  assumes "0 \<le> sint from" and "sint from < sint (mtd_size nor)"
    and "sint (mtd_size nor) < sint from + uint len"
    and "sint (mtd_size nor) < 2 ^ 31"
    and "fst (at25sf041_test_con spi) = 0"
    and "fst (bus spi (sent spi @ [test_con_message])
               (read_message from (ucast (mtd_size nor - from)))) = 0"
  shows "sint (fst (at25sf041_read nor spi from len read_buf)) = sint (mtd_size nor) - sint from \<and>
         sent (snd (snd (at25sf041_read nor spi from len read_buf)))
           = sent spi @ [test_con_message, read_message from (ucast (mtd_size nor - from))]"
proof -
  obtain r spi1 where t: "at25sf041_test_con spi = (r, spi1)"
    and s1: "sent spi1 = sent spi @ [test_con_message]" and b1: "bus spi1 = bus spi"
    by (rule test_con_cases)
  have r: "r = 0"
    using assms(5) t by simp
  define read_len :: size_t where "read_len = ucast (mtd_size nor - from)"
  have rl: "read_len = ucast (min_loff (mtd_size nor) (from + ucast len) - from)"
    using assms(1-4) by (simp add: read_len_def read_len_clamped)
  obtain r2 rx where a: "bus spi1 (sent spi1) (read_message from read_len) = (r2, rx)"
    by (cases "bus spi1 (sent spi1) (read_message from read_len)") auto
  have r2: "r2 = 0"
    using assms(6) a by (simp add: s1 b1 read_len_def)
  have "sint read_len = sint (mtd_size nor) - sint from"
    unfolding read_len_def using assms(1-4) by (intro sint_diff32) simp_all
  then show ?thesis
    using read_unfold [OF t rl a] by (simp add: r r2 s1 read_len_def)
qed

lemma sim_data_answer:
  "length m \<noteq> 4 \<Longrightarrow> sim_bus st ident r h m = (r, [])"
  by (simp add: sim_bus_def)

lemma length_read_message: "length (read_message from n) = 2"
  by (simp add: read_message_def)

theorem read_truncates_to_capacity_witness:
  "sint (fst (at25sf041_read \<lparr>mtd_size = 0x80000\<rparr> (sim_chip 0x00 [0x1F, 0x84, 0x01] 0)
            0x7FFFC 8 [0, 0, 0, 0, 0, 0, 0, 0])) = 4"
  using read_truncates_to_capacity [of "0x7FFFC" "\<lparr>mtd_size = 0x80000\<rparr>" 8
      "sim_chip 0x00 [0x1F, 0x84, 0x01] 0" "[0, 0, 0, 0, 0, 0, 0, 0]"]
  by (simp add: sim_chip_def test_con_sim sim_data_answer length_read_message)

text \<open>The read at the very end of the device.\<close>

lemma read_len_at_capacity:
  fixes "from" :: loff_t and len :: size_t
  assumes "sint from + uint len < 2 ^ 63"
  shows "min_loff from (from + ucast len) - from = 0"
proof -
  have "- (2 ^ 63) \<le> sint from"
    using sint_ge [of "from"] by simp
  moreover have "0 \<le> uint len"
    by simp
  ultimately have "- (2 ^ 63) \<le> sint from + uint len"
    by linarith
  then have s: "sint (from + ucast len) = sint from + uint len"
    using assms by (simp add: sint_sum)
  show ?thesis
  proof (cases "from <s from + ucast len")
    case True
    then show ?thesis by (simp add: min_loff_def)
  next
    case False
    then have "uint len = 0"
      using s \<open>0 \<le> uint len\<close> by (simp add: word_sless_alt)
    then have "len = 0"
      by (simp add: uint_0_iff)
    then show ?thesis by (simp add: min_loff_def)
  qed
qed

text \<open>
  C1, as the code has it. \<open>at25sf041_read\<close> has no early return for an address at or
  beyond the capacity: for every \<open>from\<close> and \<open>len\<close> it runs the probe on the bus first,
  and a failed probe's code is returned with the buffer untouched and no read
  transaction. For \<open>from = capacity\<close> (and \<open>from + len\<close> within \<^verbatim>\<open>loff_t\<close>), when
  the probe and the read transaction succeed the result is 0, after a read transaction
  whose data segment has length 0.
\<close>

theorem read_at_capacity:
  fixes len :: size_t
  shows "(\<exists>rest. sent (snd (snd (at25sf041_read nor spi from len read_buf)))
                  = sent spi @ test_con_message # rest) \<and>
         (fst (at25sf041_test_con spi) \<noteq> 0 \<longrightarrow>
            at25sf041_read nor spi from len read_buf
              = (fst (at25sf041_test_con spi), read_buf, snd (at25sf041_test_con spi)) \<and>
            sent (snd (at25sf041_test_con spi)) = sent spi @ [test_con_message]) \<and>
         (from = mtd_size nor \<and> sint from + uint len < 2 ^ 63 \<and>
          fst (at25sf041_test_con spi) = 0 \<and>
          fst (bus spi (sent spi @ [test_con_message]) (read_message from 0)) = 0 \<longrightarrow>
            fst (at25sf041_read nor spi from len read_buf) = 0 \<and>
            sent (snd (snd (at25sf041_read nor spi from len read_buf)))
              = sent spi @ [test_con_message, read_message from 0])"
proof -
  obtain r spi1 where t: "at25sf041_test_con spi = (r, spi1)"
    and s1: "sent spi1 = sent spi @ [test_con_message]" and b1: "bus spi1 = bus spi"
    by (rule test_con_cases)
  have first: "\<exists>rest. sent (snd (snd (at25sf041_read nor spi from len read_buf)))
                  = sent spi @ test_con_message # rest"
    by (simp add: at25sf041_read_def t s1 spi_sync_def Let_def split: prod.splits)
  have failed: "r \<noteq> 0 \<Longrightarrow> at25sf041_read nor spi from len read_buf = (r, read_buf, spi1)"
    by (simp add: at25sf041_read_def t Let_def)
  have at_end: "fst (at25sf041_read nor spi from len read_buf) = 0 \<and>
      sent (snd (snd (at25sf041_read nor spi from len read_buf)))
        = sent spi @ [test_con_message, read_message from 0]"
    if cap: "from = mtd_size nor" and fits: "sint from + uint len < 2 ^ 63" and ok: "r = 0"
      and sync: "fst (bus spi (sent spi @ [test_con_message]) (read_message from 0)) = 0"
  proof -
    have rl: "(0 :: size_t) = ucast (min_loff (mtd_size nor) (from + ucast len) - from)"
      using cap fits by (simp add: read_len_at_capacity)
    obtain r2 rx where a: "bus spi1 (sent spi1) (read_message from 0) = (r2, rx)"
      by (cases "bus spi1 (sent spi1) (read_message from 0)") auto
    have "r2 = 0"
      using sync a by (simp add: s1 b1)
    then show ?thesis
      using read_unfold [OF t rl a, of read_buf] by (simp add: ok s1)
  qed
  have second: "fst (at25sf041_test_con spi) \<noteq> 0 \<longrightarrow>
      at25sf041_read nor spi from len read_buf
        = (fst (at25sf041_test_con spi), read_buf, snd (at25sf041_test_con spi)) \<and>
      sent (snd (at25sf041_test_con spi)) = sent spi @ [test_con_message]"
    using failed by (simp add: t s1)
  have third: "from = mtd_size nor \<and> sint from + uint len < 2 ^ 63 \<and>
      fst (at25sf041_test_con spi) = 0 \<and>
      fst (bus spi (sent spi @ [test_con_message]) (read_message from 0)) = 0 \<longrightarrow>
        fst (at25sf041_read nor spi from len read_buf) = 0 \<and>
        sent (snd (snd (at25sf041_read nor spi from len read_buf)))
          = sent spi @ [test_con_message, read_message from 0]"
  proof (intro impI, elim conjE)
    assume "from = mtd_size nor" and "sint from + uint len < 2 ^ 63"
      and "fst (at25sf041_test_con spi) = 0"
      and "fst (bus spi (sent spi @ [test_con_message]) (read_message from 0)) = 0"
    moreover from \<open>fst (at25sf041_test_con spi) = 0\<close> have "r = 0"
      by (simp add: t)
    ultimately show "fst (at25sf041_read nor spi from len read_buf) = 0 \<and>
        sent (snd (snd (at25sf041_read nor spi from len read_buf)))
          = sent spi @ [test_con_message, read_message from 0]"
      by (intro at_end)
  qed
  show ?thesis
    using first second third by (intro conjI)
qed

theorem read_at_capacity_witness:
  "fst (at25sf041_read \<lparr>mtd_size = 0x80000\<rparr> (sim_chip 0x00 [0x1F, 0x84, 0x01] 0)
          0x80000 4 [0, 0, 0, 0]) = 0 \<and>
   sent (snd (snd (at25sf041_read \<lparr>mtd_size = 0x80000\<rparr>
          (sim_chip 0x00 [0x1F, 0x84, 0x01] 0) 0x80000 4 [0, 0, 0, 0])))
     = [test_con_message, read_message 0x80000 0] \<and>
   at25sf041_read \<lparr>mtd_size = 0x80000\<rparr> (sim_chip 0xFF [0, 0, 0] 0) 0x80001 1 [0]
     = (- EIO, [0], \<lparr>bus = sim_bus 0xFF [0, 0, 0] 0, sent = [test_con_message]\<rparr>)"
proof -
  have at_end: "fst (at25sf041_read \<lparr>mtd_size = 0x80000\<rparr>
          (sim_chip 0x00 [0x1F, 0x84, 0x01] 0) 0x80000 4 [0, 0, 0, 0]) = 0 \<and>
      sent (snd (snd (at25sf041_read \<lparr>mtd_size = 0x80000\<rparr>
          (sim_chip 0x00 [0x1F, 0x84, 0x01] 0) 0x80000 4 [0, 0, 0, 0])))
        = [test_con_message, read_message 0x80000 0]"
    using read_at_capacity [of "\<lparr>mtd_size = 0x80000\<rparr>"
        "sim_chip 0x00 [0x1F, 0x84, 0x01] 0" "0x80000" 4 "[0, 0, 0, 0]"]
    by (simp add: sim_chip_def test_con_sim sim_data_answer length_read_message)
  have beyond: "at25sf041_read \<lparr>mtd_size = 0x80000\<rparr> (sim_chip 0xFF [0, 0, 0] 0)
        0x80001 1 [0]
      = (- EIO, [0], \<lparr>bus = sim_bus 0xFF [0, 0, 0] 0, sent = [test_con_message]\<rparr>)"
    using read_at_capacity [of "\<lparr>mtd_size = 0x80000\<rparr>"
        "sim_chip 0xFF [0, 0, 0] 0" "0x80001" 1 "[0]"]
    by (simp add: sim_chip_def test_con_sim EIO_def)
  show ?thesis
    using at_end beyond by (simp only:)
qed

lemma ucast_minus_one: "(ucast (- 1 :: loff_t) :: size_t) = - 1"
  by (rule bit_word_eqI) (auto simp add: bit_simps)

text \<open>
  C1, as stated, fails: on a chip of 0x80000 bytes that answers every message, a read of
  one byte at 0x80001 puts two messages on the bus and returns -1.
\<close>

theorem read_beyond_capacity_counterexample:
  "mtd_size \<lparr>mtd_size = 0x80000\<rparr> \<le>s 0x80001 \<and>
   sint (fst (at25sf041_read \<lparr>mtd_size = 0x80000\<rparr> (sim_chip 0x00 [0x1F, 0x84, 0x01] 0)
                0x80001 1 [0])) = - 1 \<and>
   sent (sim_chip 0x00 [0x1F, 0x84, 0x01] 0) = [] \<and>
   sent (snd (snd (at25sf041_read \<lparr>mtd_size = 0x80000\<rparr> (sim_chip 0x00 [0x1F, 0x84, 0x01] 0)
                0x80001 1 [0]))) = [test_con_message, read_message 0x80001 (- 1)]"
  by (simp add: at25sf041_read_def sim_chip_def test_con_sim spi_sync_def min_loff_def
      sim_data_answer length_read_message rx_into_def Let_def ucast_minus_one)

section \<open>The splitting write\<close>

text \<open>One iteration of the loop, and the arithmetic of a chunk.\<close>

lemma loop_done:
  "\<not> 0 < data_left \<Longrightarrow> at25sf041_write_loop spi to write_buf data_left write_len calls
     = (write_len, calls, spi)"
  by (subst at25sf041_write_loop.simps) simp

lemma loop_step:
  assumes "0 < data_left"
    and "at25sf041_write_page spi (write_chunk to write_buf data_left) = (result, spi')"
  shows "at25sf041_write_loop spi to write_buf data_left write_len calls =
     (if result <s 0 then (result, calls @ [(write_chunk to write_buf data_left, result)], spi')
      else if len (write_chunk to write_buf data_left) \<noteq> result
        then (- EIO, calls @ [(write_chunk to write_buf data_left, result)], spi')
      else at25sf041_write_loop spi' (to + ucast (len (write_chunk to write_buf data_left)))
             (drop (unat (len (write_chunk to write_buf data_left))) write_buf)
             (data_left - len (write_chunk to write_buf data_left)) write_len
             (calls @ [(write_chunk to write_buf data_left, result)]))"
  using assms
  by (subst at25sf041_write_loop.simps) (simp add: Let_def)

lemma unat_page_off: "unat (ucast ((to :: loff_t) AND 0xFF) :: size_t) = unat to mod 256"
proof -
  have "to AND 0xFF = take_bit 8 to"
    by (simp only: take_bit_eq_mask) (simp add: mask_eq_exp_minus_1)
  then have "unat (to AND 0xFF) = unat to mod 256"
    by (simp add: take_bit_eq_mod unat_mod)
  moreover have "unat (ucast (to AND 0xFF) :: size_t) = unat (to AND 0xFF) mod 2 ^ 32"
    by (simp only: unsigned_ucast_eq take_bit_eq_mod) simp
  ultimately show ?thesis
    by simp
qed

lemma unat_chunk_len:
  "unat (len (write_chunk to write_buf data_left)) = min (256 - unat to mod 256) (unat data_left)"
proof -
  have "(ucast (to AND 0xFF) :: size_t) \<le> 256"
    by (simp add: word_le_nat_alt unat_page_off less_imp_le)
  then have "unat (256 - ucast (to AND 0xFF) :: size_t) = 256 - unat to mod 256"
    by (simp add: unat_sub unat_page_off)
  then show ?thesis
    by (simp add: write_chunk_def Let_def AT25SF041_PAGE_SIZE_def min_def word_le_nat_alt)
qed

lemma chunk_len_bounds:
  assumes "0 < data_left"
  shows "1 \<le> unat (len (write_chunk to write_buf data_left))"
    and "unat (len (write_chunk to write_buf data_left)) \<le> unat data_left"
    and "unat (len (write_chunk to write_buf data_left)) \<le> 256 - unat to mod 256"
    and "unat (data_left - len (write_chunk to write_buf data_left))
           = unat data_left - unat (len (write_chunk to write_buf data_left))"
proof -
  have pos: "0 < unat data_left"
    using assms by (simp add: word_less_nat_alt)
  show "1 \<le> unat (len (write_chunk to write_buf data_left))"
    using pos by (simp add: unat_chunk_len)
  show le: "unat (len (write_chunk to write_buf data_left)) \<le> unat data_left"
    by (simp add: unat_chunk_len)
  show "unat (len (write_chunk to write_buf data_left)) \<le> 256 - unat to mod 256"
    by (simp add: unat_chunk_len)
  have "len (write_chunk to write_buf data_left) \<le> data_left"
    using le by (simp add: word_le_nat_alt)
  then show "unat (data_left - len (write_chunk to write_buf data_left))
           = unat data_left - unat (len (write_chunk to write_buf data_left))"
    by (rule unat_sub)
qed

lemma chunk_decreases:
  assumes "0 < data_left"
  shows "unat (data_left - len (write_chunk to write_buf data_left)) < unat data_left"
  using chunk_len_bounds [OF assms, of to write_buf] by linarith

lemma chunk_start [simp]: "spi_addr_start (write_chunk to write_buf data_left) = to"
  by (simp add: write_chunk_def Let_def)

lemma chunk_len_nonneg: "\<not> len (write_chunk to write_buf data_left) <s 0"
proof -
  have "unat (len (write_chunk to write_buf data_left)) \<le> 256"
    by (simp add: unat_chunk_len)
  then have "uint (len (write_chunk to write_buf data_left)) \<le> 256"
    by (simp add: uint_nat del: of_nat_unat)
  then have "uint (len (write_chunk to write_buf data_left)) < 2 ^ 31"
    by simp
  moreover have "- (2 ^ 31) \<le> uint (len (write_chunk to write_buf data_left))"
    by (rule order_trans [OF _ uint_ge_0]) simp
  ultimately have "signed_take_bit 31 (uint (len (write_chunk to write_buf data_left)))
      = uint (len (write_chunk to write_buf data_left))"
    by (intro signed_take_bit_int_eq_self)
  then have "sint (len (write_chunk to write_buf data_left))
               = uint (len (write_chunk to write_buf data_left))"
    by (simp add: sint_uint)
  then show ?thesis
    by (simp add: word_sless_alt)
qed

text \<open>The calls made so far are only carried along.\<close>

lemma loop_calls:
  "at25sf041_write_loop spi to write_buf data_left write_len calls =
     (case at25sf041_write_loop spi to write_buf data_left write_len [] of
        (res, tr, s) \<Rightarrow> (res, calls @ tr, s))"
proof (induction "unat data_left" arbitrary: spi to write_buf data_left calls rule: less_induct)
  case less
  show ?case
  proof (cases "0 < data_left")
    case False
    then show ?thesis by (simp add: loop_done)
  next
    case True
    define page where "page = write_chunk to write_buf data_left"
    obtain result spi' where w: "at25sf041_write_page spi page = (result, spi')"
      by (cases "at25sf041_write_page spi page") auto
    note step = loop_step [OF True w [unfolded page_def], folded page_def]
    show ?thesis
    proof (cases "result <s 0 \<or> len page \<noteq> result")
      case True
      then show ?thesis
        by (auto simp add: step)
    next
      case False
      then have eq: "len page = result" and nonneg: "\<not> result <s 0"
        by simp_all
      have "unat (data_left - len page) < unat data_left"
        unfolding page_def using True by (rule chunk_decreases)
      then have "unat (data_left - result) < unat data_left"
        by (simp add: eq)
      note ih = less [OF this]
      show ?thesis
        by (simp add: step eq nonneg ih [of _ _ _ "[(page, result)]"]
            ih [of _ _ _ "calls @ [(page, result)]"] split: prod.splits)
    qed
  qed
qed

lemma loop_cons:
  assumes "0 < data_left"
    and "at25sf041_write_page spi (write_chunk to write_buf data_left) = (result, spi')"
  shows "at25sf041_write_loop spi to write_buf data_left write_len [] =
     (if result <s 0 then (result, [(write_chunk to write_buf data_left, result)], spi')
      else if len (write_chunk to write_buf data_left) \<noteq> result
        then (- EIO, [(write_chunk to write_buf data_left, result)], spi')
      else
        (case at25sf041_write_loop spi' (to + ucast (len (write_chunk to write_buf data_left)))
                (drop (unat (len (write_chunk to write_buf data_left))) write_buf)
                (data_left - len (write_chunk to write_buf data_left)) write_len [] of
           (res, tr, s) \<Rightarrow> (res, (write_chunk to write_buf data_left, result) # tr, s)))"
  by (simp add: loop_step [OF assms]
      loop_calls [of _ _ _ _ _ "[(write_chunk to write_buf data_left, result)]"])

text \<open>Induction over the iterations of the loop: a property of the calls holds for a
  loop state if it holds when the loop stops at once, when the first call ends the
  loop, and when it continues, given that it holds for the rest.\<close>

lemma loop_induct [consumes 0, case_names stop abort continue]:
  assumes stop: "\<And>spi to write_buf data_left. \<not> 0 < data_left \<Longrightarrow>
      P spi to write_buf data_left (write_len, [], spi)"
    and abort: "\<And>spi to write_buf data_left page result spi'.
      0 < data_left \<Longrightarrow> page = write_chunk to write_buf data_left \<Longrightarrow>
      at25sf041_write_page spi page = (result, spi') \<Longrightarrow>
      result <s 0 \<or> len page \<noteq> result \<Longrightarrow>
      P spi to write_buf data_left (if result <s 0 then result else - EIO, [(page, result)], spi')"
    and continue: "\<And>spi to write_buf data_left page result spi' res tr s.
      0 < data_left \<Longrightarrow> page = write_chunk to write_buf data_left \<Longrightarrow>
      at25sf041_write_page spi page = (result, spi') \<Longrightarrow>
      \<not> result <s 0 \<Longrightarrow> len page = result \<Longrightarrow>
      at25sf041_write_loop spi' (to + ucast (len page)) (drop (unat (len page)) write_buf)
        (data_left - len page) write_len [] = (res, tr, s) \<Longrightarrow>
      P spi' (to + ucast (len page)) (drop (unat (len page)) write_buf)
        (data_left - len page) (res, tr, s) \<Longrightarrow>
      P spi to write_buf data_left (res, (page, result) # tr, s)"
  shows "P spi to write_buf data_left
           (at25sf041_write_loop spi to write_buf data_left write_len [])"
proof (induction "unat data_left" arbitrary: spi to write_buf data_left rule: less_induct)
  case less
  show ?case
  proof (cases "0 < data_left")
    case False
    then show ?thesis
      using stop [OF False] by (simp add: loop_done)
  next
    case True
    define page where "page = write_chunk to write_buf data_left"
    obtain result spi' where w: "at25sf041_write_page spi page = (result, spi')"
      by (cases "at25sf041_write_page spi page") auto
    note cons = loop_cons [OF True w [unfolded page_def], folded page_def]
    show ?thesis
    proof (cases "result <s 0 \<or> len page \<noteq> result")
      case True
      then show ?thesis
        using abort [OF \<open>0 < data_left\<close> page_def w True] by (auto simp add: cons)
    next
      case False
      then have eq: "len page = result" and nonneg: "\<not> result <s 0"
        by simp_all
      have dec: "unat (data_left - len page) < unat data_left"
        unfolding page_def using True by (rule chunk_decreases)
      obtain res tr s where rest:
        "at25sf041_write_loop spi' (to + ucast (len page)) (drop (unat (len page)) write_buf)
           (data_left - len page) write_len [] = (res, tr, s)"
        by (metis prod_cases3)
      have "P spi' (to + ucast (len page)) (drop (unat (len page)) write_buf)
              (data_left - len page) (res, tr, s)"
        using less [OF dec, of spi' "to + ucast (len page)" "drop (unat (len page)) write_buf"]
        by (simp only: rest)
      from continue [OF True page_def w nonneg eq rest this]
      show ?thesis
        using cons rest by (simp add: eq nonneg)
    qed
  qed
qed

text \<open>Runs on the simulated chip.\<close>

lemma length_write_page_message: "length (write_page_message page) = 2"
  by (simp add: write_page_message_def)

lemma write_page_sim:
  "at25sf041_write_page \<lparr>bus = sim_bus 0x00 [0x1F, 0x84, 0x01] r, sent = h\<rparr> page =
     (if r \<noteq> 0 then r else len page,
      \<lparr>bus = sim_bus 0x00 [0x1F, 0x84, 0x01] r,
       sent = h @ [test_con_message, write_page_message page]\<rparr>)"
  by (simp add: at25sf041_write_page_def test_con_sim spi_sync_def sim_data_answer
      length_write_page_message)

lemma write_sim_two_chunks:
  "at25sf041_write \<lparr>mtd_size = 0x80000\<rparr> (sim_chip 0x00 [0x1F, 0x84, 0x01] 0) 253 10
      [1, 2, 3, 4, 5, 6, 7, 8, 9, 10] =
     (10,
      [(\<lparr>spi_addr_start = 253, buffer_start = [1, 2, 3, 4, 5, 6, 7, 8, 9, 10], len = 3\<rparr>, 3),
       (\<lparr>spi_addr_start = 256, buffer_start = [4, 5, 6, 7, 8, 9, 10], len = 7\<rparr>, 7)],
      \<lparr>bus = sim_bus 0x00 [0x1F, 0x84, 0x01] 0,
       sent = [test_con_message,
               write_page_message \<lparr>spi_addr_start = 253,
                 buffer_start = [1, 2, 3, 4, 5, 6, 7, 8, 9, 10], len = 3\<rparr>,
               test_con_message,
               write_page_message \<lparr>spi_addr_start = 256,
                 buffer_start = [4, 5, 6, 7, 8, 9, 10], len = 7\<rparr>]\<rparr>)"
  apply (simp add: at25sf041_write_def sim_chip_def min_loff_def Let_def word_sless_alt)
  apply (subst at25sf041_write_loop.simps)
  apply (simp add: write_page_sim write_chunk_def AT25SF041_PAGE_SIZE_def Let_def word_sless_alt)
  apply (subst at25sf041_write_loop.simps)
  apply (simp add: write_page_sim write_chunk_def AT25SF041_PAGE_SIZE_def Let_def word_sless_alt)
  apply (subst at25sf041_write_loop.simps)
  apply simp
  done

lemma write_sim_short:
  "at25sf041_write \<lparr>mtd_size = 0x80000\<rparr> (sim_chip 0x00 [0x1F, 0x84, 0x01] 1) 0 4
      [1, 2, 3, 4] =
     (- EIO,
      [(\<lparr>spi_addr_start = 0, buffer_start = [1, 2, 3, 4], len = 4\<rparr>, 1)],
      \<lparr>bus = sim_bus 0x00 [0x1F, 0x84, 0x01] 1,
       sent = [test_con_message,
               write_page_message \<lparr>spi_addr_start = 0,
                 buffer_start = [1, 2, 3, 4], len = 4\<rparr>]\<rparr>)"
  apply (simp add: at25sf041_write_def sim_chip_def min_loff_def Let_def word_sless_alt)
  apply (subst at25sf041_write_loop.simps)
  apply (simp add: write_page_sim write_chunk_def AT25SF041_PAGE_SIZE_def Let_def word_sless_alt)
  done

lemma neg_110: "(- 110 :: 32 word) <s 0"
  by (simp add: word_sless_alt)

lemma write_sim_error:
  "at25sf041_write \<lparr>mtd_size = 0x80000\<rparr> (sim_chip 0x00 [0x1F, 0x84, 0x01] (- 110)) 0 4
      [1, 2, 3, 4] =
     (- 110,
      [(\<lparr>spi_addr_start = 0, buffer_start = [1, 2, 3, 4], len = 4\<rparr>, - 110)],
      \<lparr>bus = sim_bus 0x00 [0x1F, 0x84, 0x01] (- 110),
       sent = [test_con_message,
               write_page_message \<lparr>spi_addr_start = 0,
                 buffer_start = [1, 2, 3, 4], len = 4\<rparr>]\<rparr>)"
  apply (simp add: at25sf041_write_def sim_chip_def min_loff_def Let_def word_sless_alt)
  apply (subst at25sf041_write_loop.simps)
  apply (simp add: write_page_sim write_chunk_def AT25SF041_PAGE_SIZE_def Let_def neg_110)
  done

section \<open>Chunks never cross a page boundary\<close>

lemma sint_mod_page: "sint (a :: loff_t) mod 256 = int (unat a mod 256)"
proof -
  have "uint a = sint a mod 2 ^ 64"
    by (simp add: uint_sint take_bit_eq_mod)
  then have "uint a mod 256 = sint a mod 256"
    by (simp add: mod_mod_cancel)
  then show ?thesis
    by (simp add: zmod_int)
qed

lemma same_page:
  fixes a :: loff_t and n :: size_t
  assumes "1 \<le> unat n" and "unat a mod 256 + unat n \<le> 256"
  shows "sint a div 256 = (sint a + uint n - 1) div 256"
proof -
  define q where "q = sint a div 256"
  define m where "m = sint a mod 256"
  have a: "sint a = 256 * q + m"
    by (simp add: q_def m_def)
  have m: "m = int (unat a mod 256)"
    by (simp add: m_def sint_mod_page)
  have "int 1 \<le> int (unat n)"
    using assms(1) by (simp only: of_nat_le_iff)
  then have n: "1 \<le> uint n"
    by simp
  have "int (unat a mod 256 + unat n) \<le> int 256"
    using assms(2) by (simp only: of_nat_le_iff)
  then have mn: "m + uint n \<le> 256"
    by (simp add: m zmod_int)
  have "0 \<le> m"
    by (simp add: m_def)
  then have "0 \<le> m + uint n - 1" and "m + uint n - 1 < 256"
    using n mn by linarith+
  then have "(m + uint n - 1) div 256 = 0"
    by (rule div_pos_pos_trivial)
  then have "(256 * q + (m + uint n - 1)) div 256 = q"
    by simp
  moreover have "sint a + uint n - 1 = 256 * q + (m + uint n - 1)"
    by (simp add: a)
  ultimately have "(sint a + uint n - 1) div 256 = q"
    by (simp only:)
  then show ?thesis
    by (simp only: q_def)
qed

lemma chunk_fits:
  assumes "0 < data_left"
  shows "1 \<le> unat (len (write_chunk to write_buf data_left)) \<and>
         unat (spi_addr_start (write_chunk to write_buf data_left)) mod 256
           + unat (len (write_chunk to write_buf data_left)) \<le> 256"
proof -
  have "unat to mod 256 < 256"
    by simp
  then show ?thesis
    using chunk_len_bounds(1,3) [OF assms, of to write_buf] by simp
qed

lemma loop_chunks_fit:
  "\<forall>c \<in> set (fst (snd (at25sf041_write_loop spi to write_buf data_left write_len []))).
     1 \<le> unat (len (fst c)) \<and>
     unat (spi_addr_start (fst c)) mod 256 + unat (len (fst c)) \<le> 256"
proof (rule loop_induct [where P = "\<lambda>spi to write_buf data_left out.
     \<forall>c \<in> set (fst (snd out)). 1 \<le> unat (len (fst c)) \<and>
       unat (spi_addr_start (fst c)) mod 256 + unat (len (fst c)) \<le> 256"], goal_cases)
  case 1
  then show ?case by simp
next
  case (2 spi to write_buf data_left page result spi')
  show ?case
    using chunk_fits [OF \<open>0 < data_left\<close>, of to write_buf]
    by (simp add: \<open>page = _\<close>)
next
  case (3 spi to write_buf data_left page result spi' res tr s)
  show ?case
    using chunk_fits [OF \<open>0 < data_left\<close>, of to write_buf] 3(7)
    by (simp add: \<open>page = _\<close>)
qed

text \<open>
  C2. Every page that \<open>at25sf041_write\<close> passes to \<open>at25sf041_write_page\<close>, for any
  capacity, device, \<open>to\<close>, length and buffer, has between 1 and 256 bytes and lies
  within one 256-byte page: its first address \<open>spi_addr_start\<close> and its last address
  \<open>spi_addr_start + len - 1\<close> have the same quotient by 256.
\<close>

theorem write_chunks_within_page:
  fixes len_arg :: size_t
  shows "\<forall>c \<in> set (fst (snd (at25sf041_write nor spi to len_arg write_buf))).
     1 \<le> unat (len (fst c)) \<and> unat (len (fst c)) \<le> 256 \<and>
     sint (spi_addr_start (fst c)) div 256
       = (sint (spi_addr_start (fst c)) + uint (len (fst c)) - 1) div 256"
proof
  fix c
  assume "c \<in> set (fst (snd (at25sf041_write nor spi to len_arg write_buf)))"
  then have "1 \<le> unat (len (fst c)) \<and>
      unat (spi_addr_start (fst c)) mod 256 + unat (len (fst c)) \<le> 256"
    using loop_chunks_fit by (simp add: at25sf041_write_def Let_def)
  then show "1 \<le> unat (len (fst c)) \<and> unat (len (fst c)) \<le> 256 \<and>
     sint (spi_addr_start (fst c)) div 256
       = (sint (spi_addr_start (fst c)) + uint (len (fst c)) - 1) div 256"
    using same_page [of "len (fst c)" "spi_addr_start (fst c)"] by simp
qed

theorem write_chunks_within_page_witness:
  "(\<lparr>spi_addr_start = 253, buffer_start = [1, 2, 3, 4, 5, 6, 7, 8, 9, 10], len = 3\<rparr>, 3)
     \<in> set (fst (snd (at25sf041_write \<lparr>mtd_size = 0x80000\<rparr>
            (sim_chip 0x00 [0x1F, 0x84, 0x01] 0) 253 10 [1, 2, 3, 4, 5, 6, 7, 8, 9, 10]))) \<and>
   sint (253 :: loff_t) div 256 = (sint (253 :: loff_t) + uint (3 :: size_t) - 1) div 256"
  using write_chunks_within_page [of "\<lparr>mtd_size = 0x80000\<rparr>"
      "sim_chip 0x00 [0x1F, 0x84, 0x01] 0" 253 10 "[1, 2, 3, 4, 5, 6, 7, 8, 9, 10]"]
  by (simp add: write_sim_two_chunks)

section \<open>A failed page program ends the write\<close>

lemma loop_failure_is_last:
  "\<forall>i < length (fst (snd (at25sf041_write_loop spi to write_buf data_left write_len []))).
     (snd (fst (snd (at25sf041_write_loop spi to write_buf data_left write_len [])) ! i) <s 0 \<longrightarrow>
        Suc i = length (fst (snd (at25sf041_write_loop spi to write_buf data_left write_len []))) \<and>
        fst (at25sf041_write_loop spi to write_buf data_left write_len [])
          = snd (fst (snd (at25sf041_write_loop spi to write_buf data_left write_len [])) ! i)) \<and>
     (\<not> snd (fst (snd (at25sf041_write_loop spi to write_buf data_left write_len [])) ! i) <s 0 \<and>
      snd (fst (snd (at25sf041_write_loop spi to write_buf data_left write_len [])) ! i)
        \<noteq> len (fst (fst (snd (at25sf041_write_loop spi to write_buf data_left write_len [])) ! i)) \<longrightarrow>
        Suc i = length (fst (snd (at25sf041_write_loop spi to write_buf data_left write_len []))) \<and>
        fst (at25sf041_write_loop spi to write_buf data_left write_len []) = - EIO)"
proof (rule loop_induct [where P = "\<lambda>spi to write_buf data_left out.
     \<forall>i < length (fst (snd out)).
       (snd (fst (snd out) ! i) <s 0 \<longrightarrow>
          Suc i = length (fst (snd out)) \<and> fst out = snd (fst (snd out) ! i)) \<and>
       (\<not> snd (fst (snd out) ! i) <s 0 \<and> snd (fst (snd out) ! i) \<noteq> len (fst (fst (snd out) ! i)) \<longrightarrow>
          Suc i = length (fst (snd out)) \<and> fst out = - EIO)"], goal_cases)
  case 1
  then show ?case by simp
next
  case (2 spi to write_buf data_left page result spi')
  then show ?case by auto
next
  case (3 spi to write_buf data_left page result spi' res tr s)
  show ?case
  proof (intro allI impI)
    fix i
    assume "i < length (fst (snd (res, (page, result) # tr, s)))"
    then have i: "i < Suc (length tr)"
      by simp
    show "(snd (fst (snd (res, (page, result) # tr, s)) ! i) <s 0 \<longrightarrow>
          Suc i = length (fst (snd (res, (page, result) # tr, s))) \<and>
          fst (res, (page, result) # tr, s) = snd (fst (snd (res, (page, result) # tr, s)) ! i)) \<and>
         (\<not> snd (fst (snd (res, (page, result) # tr, s)) ! i) <s 0 \<and>
          snd (fst (snd (res, (page, result) # tr, s)) ! i)
            \<noteq> len (fst (fst (snd (res, (page, result) # tr, s)) ! i)) \<longrightarrow>
          Suc i = length (fst (snd (res, (page, result) # tr, s))) \<and>
          fst (res, (page, result) # tr, s) = - EIO)"
    proof (cases i)
      case 0
      then show ?thesis
        using 3(4,5) by simp
    next
      case (Suc j)
      then have j: "j < length tr"
        using i by simp
      have "(snd (tr ! j) <s 0 \<longrightarrow> Suc j = length tr \<and> res = snd (tr ! j)) \<and>
            (\<not> snd (tr ! j) <s 0 \<and> snd (tr ! j) \<noteq> len (fst (tr ! j)) \<longrightarrow>
               Suc j = length tr \<and> res = - EIO)"
        using 3(7) j by simp
      then show ?thesis
        unfolding Suc by (simp only: fst_conv snd_conv nth_Cons_Suc length_Cons nat.inject)
    qed
  qed
qed

text \<open>
  C3. In any run of \<open>at25sf041_write\<close>, a call to \<open>at25sf041_write_page\<close> that returns a
  negative value is the last call of the run, and the write returns that value
  unchanged; a call that returns a non-negative value different from the length of its
  chunk is the last call of the run, and the write returns \<open>-EIO\<close>.
\<close>

theorem write_stops_at_failed_page:
  fixes len_arg :: size_t
  assumes "at25sf041_write nor spi to len_arg write_buf = (res, calls, spi')"
    and "i < length calls" and "calls ! i = (page, r)"
  shows "(r <s 0 \<longrightarrow> Suc i = length calls \<and> res = r) \<and>
         (\<not> r <s 0 \<and> r \<noteq> len page \<longrightarrow> Suc i = length calls \<and> res = - EIO)"
proof -
  define write_len :: size_t
    where "write_len = ucast (min_loff (mtd_size nor) (to + ucast len_arg) - to)"
  have run: "at25sf041_write_loop spi to write_buf write_len write_len [] = (res, calls, spi')"
    using assms(1) by (simp add: at25sf041_write_def Let_def write_len_def)
  show ?thesis
    using loop_failure_is_last [of spi to write_buf write_len write_len, rule_format, of i]
      assms(2,3)
    by (simp add: run)
qed

theorem write_stops_at_failed_page_witness:
  "fst (at25sf041_write \<lparr>mtd_size = 0x80000\<rparr> (sim_chip 0x00 [0x1F, 0x84, 0x01] 1) 0 4
      [1, 2, 3, 4]) = - EIO \<and>
   length (fst (snd (at25sf041_write \<lparr>mtd_size = 0x80000\<rparr>
      (sim_chip 0x00 [0x1F, 0x84, 0x01] 1) 0 4 [1, 2, 3, 4]))) = 1 \<and>
   fst (at25sf041_write \<lparr>mtd_size = 0x80000\<rparr> (sim_chip 0x00 [0x1F, 0x84, 0x01] (- 110))
      0 4 [1, 2, 3, 4]) = - 110 \<and>
   length (fst (snd (at25sf041_write \<lparr>mtd_size = 0x80000\<rparr>
      (sim_chip 0x00 [0x1F, 0x84, 0x01] (- 110)) 0 4 [1, 2, 3, 4]))) = 1"
proof -
  have short: "fst (at25sf041_write \<lparr>mtd_size = 0x80000\<rparr>
        (sim_chip 0x00 [0x1F, 0x84, 0x01] 1) 0 4 [1, 2, 3, 4]) = - EIO \<and>
      length (fst (snd (at25sf041_write \<lparr>mtd_size = 0x80000\<rparr>
        (sim_chip 0x00 [0x1F, 0x84, 0x01] 1) 0 4 [1, 2, 3, 4]))) = 1"
    using write_stops_at_failed_page [OF write_sim_short,
        of 0 "\<lparr>spi_addr_start = 0, buffer_start = [1, 2, 3, 4], len = 4\<rparr>" 1]
    by (simp add: write_sim_short)
  have error: "fst (at25sf041_write \<lparr>mtd_size = 0x80000\<rparr>
        (sim_chip 0x00 [0x1F, 0x84, 0x01] (- 110)) 0 4 [1, 2, 3, 4]) = - 110 \<and>
      length (fst (snd (at25sf041_write \<lparr>mtd_size = 0x80000\<rparr>
        (sim_chip 0x00 [0x1F, 0x84, 0x01] (- 110)) 0 4 [1, 2, 3, 4]))) = 1"
    using write_stops_at_failed_page [OF write_sim_error,
        of 0 "\<lparr>spi_addr_start = 0, buffer_start = [1, 2, 3, 4], len = 4\<rparr>" "- 110"]
    by (simp add: write_sim_error neg_110)
  show ?thesis
    using short error by (simp only:) 
qed

section \<open>The loop terminates\<close>

lemma loop_all_written:
  "(\<forall>c \<in> set (fst (snd (at25sf041_write_loop spi to write_buf data_left write_len []))).
       snd c = len (fst c)) \<longrightarrow>
     fst (at25sf041_write_loop spi to write_buf data_left write_len []) = write_len \<and>
     sum_list (map (\<lambda>c. unat (len (fst c)))
       (fst (snd (at25sf041_write_loop spi to write_buf data_left write_len [])))) = unat data_left \<and>
     length (fst (snd (at25sf041_write_loop spi to write_buf data_left write_len [])))
       \<le> unat data_left"
proof (rule loop_induct [where P = "\<lambda>spi to write_buf data_left out.
     (\<forall>c \<in> set (fst (snd out)). snd c = len (fst c)) \<longrightarrow>
     fst out = write_len \<and>
     sum_list (map (\<lambda>c. unat (len (fst c))) (fst (snd out))) = unat data_left \<and>
     length (fst (snd out)) \<le> unat data_left"], goal_cases)
  case (1 spi to write_buf data_left)
  then have "unat data_left = 0"
    by (simp add: word_less_nat_alt)
  then show ?case by simp
next
  case (2 spi to write_buf data_left page result spi')
  then show ?case
    using chunk_len_nonneg [of to write_buf data_left] by auto
next
  case (3 spi to write_buf data_left page result spi' res tr s)
  note b = chunk_len_bounds [OF \<open>0 < data_left\<close>, of to write_buf, folded \<open>page = _\<close>]
  show ?case
    using 3(7) b by auto
qed

text \<open>
  C10. The loop is defined by recursion on \<open>data_left\<close>, and its termination proof is
  part of the definition: \<open>at25sf041_write\<close> returns on every input. When every call to
  \<open>at25sf041_write_page\<close> returned the length of its chunk, the write returns the clamped
  length, the chunks are of at least one byte each and add up to that length, so the loop
  made at most that many calls. At any loop state the chunk length is
  \<open>min (256 - to mod 256) data_left\<close>; with \<open>data_left\<close> at least 1 it is at least 1 and
  \<open>data_left\<close> strictly decreases.
\<close>

theorem write_loop_terminates:
  fixes len_arg :: size_t and data_left :: size_t
  assumes "at25sf041_write nor spi to len_arg write_buf = (res, calls, spi')"
    and "\<forall>c \<in> set calls. snd c = len (fst c)"
  shows "res = ucast (min_loff (mtd_size nor) (to + ucast len_arg) - to) \<and>
         sum_list (map (\<lambda>c. unat (len (fst c))) calls) = unat res \<and>
         length calls \<le> unat res \<and>
         (\<forall>c \<in> set calls. 1 \<le> unat (len (fst c))) \<and>
         unat (len (write_chunk cursor buf data_left))
           = min (256 - unat cursor mod 256) (unat data_left) \<and>
         (0 < data_left \<longrightarrow>
            1 \<le> unat (len (write_chunk cursor buf data_left)) \<and>
            unat (data_left - len (write_chunk cursor buf data_left)) < unat data_left)"
proof -
  define write_len :: size_t
    where "write_len = ucast (min_loff (mtd_size nor) (to + ucast len_arg) - to)"
  have run: "at25sf041_write_loop spi to write_buf write_len write_len [] = (res, calls, spi')"
    using assms(1) by (simp add: at25sf041_write_def Let_def write_len_def)
  have "res = write_len \<and> sum_list (map (\<lambda>c. unat (len (fst c))) calls) = unat write_len \<and>
        length calls \<le> unat write_len"
    using loop_all_written [of spi to write_buf write_len write_len] assms(2)
    by (simp add: run)
  moreover have "\<forall>c \<in> set calls. 1 \<le> unat (len (fst c))"
    using loop_chunks_fit [of spi to write_buf write_len write_len] by (simp add: run)
  moreover have "0 < data_left \<longrightarrow>
            1 \<le> unat (len (write_chunk cursor buf data_left)) \<and>
            unat (data_left - len (write_chunk cursor buf data_left)) < unat data_left"
    using chunk_len_bounds(1) [of data_left cursor buf] chunk_decreases [of data_left cursor buf]
    by simp
  moreover note unat_chunk_len [of cursor buf data_left]
  ultimately show ?thesis
    by (simp add: write_len_def)
qed

theorem write_loop_terminates_witness:
  "sum_list (map (\<lambda>c. unat (len (fst c)))
     (fst (snd (at25sf041_write \<lparr>mtd_size = 0x80000\<rparr>
        (sim_chip 0x00 [0x1F, 0x84, 0x01] 0) 253 10 [1, 2, 3, 4, 5, 6, 7, 8, 9, 10])))) = 10 \<and>
   unat ((10 :: size_t) - len (write_chunk 253 [1, 2, 3, 4, 5, 6, 7, 8, 9, 10] 10)) < 10"
  using write_loop_terminates [OF write_sim_two_chunks, of 253 "[1, 2, 3, 4, 5, 6, 7, 8, 9, 10]" 10]
  by (simp add: write_sim_two_chunks)

section \<open>A write across one page boundary\<close>

lemma loop_good_cons:
  assumes "0 < data_left"
    and "\<forall>c \<in> set (fst (snd (at25sf041_write_loop spi to write_buf data_left write_len []))).
           snd c = len (fst c)"
    and "page = write_chunk to write_buf data_left"
    and "at25sf041_write_loop (snd (at25sf041_write_page spi page)) (to + ucast (len page))
           (drop (unat (len page)) write_buf) (data_left - len page) write_len []
         = (res, tr, s)"
  shows "at25sf041_write_loop spi to write_buf data_left write_len []
           = (res, (page, len page) # tr, s)"
proof -
  obtain result spi' where w: "at25sf041_write_page spi page = (result, spi')"
    by (cases "at25sf041_write_page spi page") auto
  note cons = loop_cons [OF assms(1) w [unfolded assms(3)], folded assms(3), of write_len]
  have nonneg: "\<not> len page <s 0"
    unfolding assms(3) by (rule chunk_len_nonneg)
  have "result = len page"
  proof (rule ccontr)
    assume ne: "result \<noteq> len page"
    then have "fst (snd (at25sf041_write_loop spi to write_buf data_left write_len []))
        = [(page, result)]"
      by (auto simp add: cons)
    then show False
      using assms(2) ne by simp
  qed
  then show ?thesis
    using cons nonneg assms(4) w by simp
qed

lemma chunk_253: "write_chunk 253 write_buf 10
    = \<lparr>spi_addr_start = 253, buffer_start = write_buf, len = 3\<rparr>"
  by (simp add: write_chunk_def Let_def AT25SF041_PAGE_SIZE_def)

lemma chunk_256: "write_chunk 256 write_buf 7
    = \<lparr>spi_addr_start = 256, buffer_start = write_buf, len = 7\<rparr>"
  by (simp add: write_chunk_def Let_def AT25SF041_PAGE_SIZE_def)

text \<open>
  C9. A write of 10 bytes at address 253 (three bytes before the end of the first page)
  on a device of at least 263 bytes, when every call to \<open>at25sf041_write_page\<close> returned
  the length of its chunk: exactly two calls are made, the first with the 3 bytes at
  253, the second with the remaining 7 bytes at 256, and the write returns 10.
\<close>

theorem write_253_10_chunks:
  assumes "263 \<le> sint (mtd_size nor)"
    and "at25sf041_write nor spi 253 10 write_buf = (res, calls, spi')"
    and "\<forall>c \<in> set calls. snd c = len (fst c)"
  shows "map fst calls =
           [\<lparr>spi_addr_start = 253, buffer_start = write_buf, len = 3\<rparr>,
            \<lparr>spi_addr_start = 256, buffer_start = drop 3 write_buf, len = 7\<rparr>] \<and>
         map snd calls = [3, 7] \<and> res = 10"
proof -
  have "min_loff (mtd_size nor) (253 + ucast (10 :: size_t)) = 263"
    using assms(1) by (simp add: min_loff_def word_sless_alt)
  then have run: "at25sf041_write_loop spi 253 write_buf 10 10 [] = (res, calls, spi')"
    using assms(2) by (simp add: at25sf041_write_def Let_def)
  define p1 where "p1 = write_chunk 253 write_buf 10"
  have l1: "len p1 = 3"
    by (simp add: p1_def chunk_253)
  define s1 where "s1 = snd (at25sf041_write_page spi p1)"
  define p2 where "p2 = write_chunk 256 (drop 3 write_buf) 7"
  have l2: "len p2 = 7"
    by (simp add: p2_def chunk_256)
  define s2 where "s2 = snd (at25sf041_write_page s1 p2)"
  obtain res1 tr1 s' where rest1:
    "at25sf041_write_loop s1 256 (drop 3 write_buf) 7 10 [] = (res1, tr1, s')"
    by (cases "at25sf041_write_loop s1 256 (drop 3 write_buf) 7 10 []") auto
  have "at25sf041_write_loop spi 253 write_buf 10 10 [] = (res1, (p1, len p1) # tr1, s')"
  proof (rule loop_good_cons [OF _ _ p1_def])
    show "(0 :: size_t) < 10"
      by simp
    show "\<forall>c \<in> set (fst (snd (at25sf041_write_loop spi 253 write_buf 10 10 []))).
           snd c = len (fst c)"
      using assms(3) by (simp add: run)
    show "at25sf041_write_loop (snd (at25sf041_write_page spi p1)) (253 + ucast (len p1))
           (drop (unat (len p1)) write_buf) (10 - len p1) 10 [] = (res1, tr1, s')"
      using rest1 by (simp add: l1 s1_def)
  qed
  then have calls: "calls = (p1, 3) # tr1" and res: "res = res1"
    using run by (simp_all add: l1)
  have good1: "\<forall>c \<in> set tr1. snd c = len (fst c)"
    using assms(3) by (simp add: calls)
  have "at25sf041_write_loop s1 256 (drop 3 write_buf) 7 10 [] = (10, (p2, len p2) # [], s2)"
  proof (rule loop_good_cons [OF _ _ p2_def])
    show "(0 :: size_t) < 7"
      by simp
    show "\<forall>c \<in> set (fst (snd (at25sf041_write_loop s1 256 (drop 3 write_buf) 7 10 []))).
           snd c = len (fst c)"
      using good1 by (simp add: rest1)
    show "at25sf041_write_loop (snd (at25sf041_write_page s1 p2)) (256 + ucast (len p2))
           (drop (unat (len p2)) (drop 3 write_buf)) (7 - len p2) 10 [] = (10, [], s2)"
      by (simp add: l2 s2_def loop_done)
  qed
  then have "tr1 = [(p2, 7)]" and "res1 = 10"
    using rest1 by (simp_all add: l2)
  then show ?thesis
    by (simp add: calls res p1_def p2_def chunk_253 chunk_256)
qed

theorem write_253_10_chunks_witness:
  "map (\<lambda>c. len (fst c)) (fst (snd (at25sf041_write \<lparr>mtd_size = 0x80000\<rparr>
        (sim_chip 0x00 [0x1F, 0x84, 0x01] 0) 253 10 [1, 2, 3, 4, 5, 6, 7, 8, 9, 10]))) = [3, 7] \<and>
   fst (at25sf041_write \<lparr>mtd_size = 0x80000\<rparr>
        (sim_chip 0x00 [0x1F, 0x84, 0x01] 0) 253 10 [1, 2, 3, 4, 5, 6, 7, 8, 9, 10]) = 10"
  using write_253_10_chunks [OF _ write_sim_two_chunks]
  by (simp add: write_sim_two_chunks)

end
